theory Spec2Isabelle
  imports Complex_Main "HOL-Library.AList" "HOL-Library.Multiset"
begin

section \<open>Python values used by predict/cve.py\<close>

text \<open>
  A Python \<open>str\<close> is modelled as a \<^typ>\<open>string\<close>: the list of its code points, for
  code points below 256. On these the library functions modelled below (\<open>re\<close>,
  \<open>urllib.parse\<close> and the part of \<open>ipaddress\<close> it calls) are those of CPython
  3.11, with two exceptions that are named where they occur (\<open>str.upper\<close> on two
  letters, \<open>unquote\<close> on escaped bytes above 0x7f).
  Exceptions are values: a function that can raise returns \<open>py_error + 'a\<close>.
\<close>

datatype py_error = KeyError | IndexError | ValueError | AttributeError | RequestException

definition in_range :: "char \<Rightarrow> char \<Rightarrow> char \<Rightarrow> bool" where
  "in_range lo hi c = ((of_char lo :: nat) \<le> of_char c \<and> (of_char c :: nat) \<le> of_char hi)"

definition is_digit :: "char \<Rightarrow> bool" where
  "is_digit c = in_range CHR ''0'' CHR ''9'' c"

definition is_lower :: "char \<Rightarrow> bool" where
  "is_lower c = in_range CHR ''a'' CHR ''z'' c"

definition is_upper :: "char \<Rightarrow> bool" where
  "is_upper c = in_range CHR ''A'' CHR ''Z'' c"

text \<open>
  \<open>str.upper()\<close>. ASCII and Latin-1 small letters move down by 32, the sharp s (0xdf)
  becomes \<open>SS\<close>, the division sign (0xf7) and everything else stays. Python maps the
  micro sign (0xb5) and y with diaeresis (0xff) to code points above 255; the model
  leaves these two unchanged.
\<close>

definition upper_char :: "char \<Rightarrow> string" where
  "upper_char c =
     (let n = (of_char c :: nat) in
      if is_lower c then [char_of (n - 32)]
      else if n = 223 then ''SS''
      else if 224 \<le> n \<and> n \<le> 254 \<and> n \<noteq> 247 then [char_of (n - 32)]
      else [c])"

definition upper :: "string \<Rightarrow> string" where
  "upper s = concat (map upper_char s)"

text \<open>\<open>str.lower()\<close>, used by \<open>urlsplit\<close> on scheme characters only (all ASCII).\<close>

definition lower_char :: "char \<Rightarrow> char" where
  "lower_char c = (if is_upper c then char_of ((of_char c :: nat) + 32) else c)"

definition lower :: "string \<Rightarrow> string" where
  "lower s = map lower_char s"

subsection \<open>The fragment of \<open>re\<close> the two patterns use\<close>

text \<open>
  A pattern is a sequence of items: \<open>^\<close>, \<open>$\<close>, a literal character, an optional
  literal character (\<open>c?\<close>), and a greedy bounded repetition of a character class
  (\<open>[..]+\<close>, \<open>\d{4}\<close>, \<open>[..]{5,40}\<close>), which may be a capturing group.
  \<open>re_items\<close> is the backtracking matcher: alternatives are tried in the order of
  Python's engine (an optional character is taken first, a repetition tries its longest
  run first), and the result is the list of captured groups of the first alternative
  under which the rest of the pattern matches. Without \<open>re.MULTILINE\<close>, \<open>^\<close> matches
  at position 0 only, and \<open>$\<close> matches at the end of the string and also just before a
  line feed that is its last character.
\<close>

datatype re_item =
    Caret
  | Dollar
  | Lit char
  | OptLit char
  | Rep bool "char \<Rightarrow> bool" nat "nat option"

fun try_down :: "(nat \<Rightarrow> 'a option) \<Rightarrow> nat \<Rightarrow> nat \<Rightarrow> 'a option" where
  "try_down f lo 0 = (if lo = 0 then f 0 else None)"
| "try_down f lo (Suc n) =
     (if Suc n < lo then None
      else case f (Suc n) of Some y \<Rightarrow> Some y | None \<Rightarrow> try_down f lo n)"

definition greedy_max :: "(char \<Rightarrow> bool) \<Rightarrow> nat option \<Rightarrow> string \<Rightarrow> nat" where
  "greedy_max cls hi s =
     (let k = length (takeWhile cls s) in case hi of None \<Rightarrow> k | Some h \<Rightarrow> min h k)"

fun re_items :: "re_item list \<Rightarrow> nat \<Rightarrow> string \<Rightarrow> string list option" where
  "re_items [] pos s = Some []"
| "re_items (Caret # r) pos s = (if pos = 0 then re_items r pos s else None)"
| "re_items (Dollar # r) pos s =
     (if s = [] \<or> s = [CHR 0x0A] then re_items r pos s else None)"
| "re_items (Lit c # r) pos s =
     (case s of [] \<Rightarrow> None | x # xs \<Rightarrow> if x = c then re_items r (Suc pos) xs else None)"
| "re_items (OptLit c # r) pos s =
     (case (case s of [] \<Rightarrow> None
                    | x # xs \<Rightarrow> if x = c then re_items r (Suc pos) xs else None) of
        Some g \<Rightarrow> Some g
      | None \<Rightarrow> re_items r pos s)"
| "re_items (Rep grp cls lo hi # r) pos s =
     try_down
       (\<lambda>n. map_option (\<lambda>g. if grp then take n s # g else g)
                          (re_items r (pos + n) (drop n s)))
       lo (greedy_max cls hi s)"

text \<open>\<open>pattern.match(s)\<close>: the pattern is tried at position 0 of \<open>s\<close> only.\<close>

definition re_match :: "re_item list \<Rightarrow> string \<Rightarrow> string list option" where
  "re_match pat s = re_items pat 0 s"

subsection \<open>Validation of a CVE identifier (cve.py, lines 94--106)\<close>

text \<open>\<^verbatim>\<open>cve_pattern = re.compile("^CVE-\d{4}-\d{4,7}$")\<close>\<close>

definition cve_pattern :: "re_item list" where
  "cve_pattern =
     [Caret] @ map Lit ''CVE-'' @ [Rep False is_digit 4 (Some 4), Lit CHR ''-'',
      Rep False is_digit 4 (Some 7), Dollar]"

definition is_valid_cve_id :: "string \<Rightarrow> bool" where
  "is_valid_cve_id cve_id = (re_match cve_pattern cve_id \<noteq> None)"

subsection \<open>\<open>urllib.parse.urlparse\<close>\<close>

text \<open>
  \<open>py_find c s\<close> is \<open>s.find(c)\<close> (\<open>None\<close> for -1); \<open>split_once c s\<close> is
  \<open>s.split(c, 1)\<close> for a string that holds \<open>c\<close>; \<open>py_split c s\<close> is
  \<open>s.split(c)\<close>, which always returns at least one piece.
\<close>

definition py_find :: "char \<Rightarrow> string \<Rightarrow> nat option" where
  "py_find c s = (if c \<in> set s then Some (length (takeWhile (\<lambda>x. x \<noteq> c) s)) else None)"

definition split_once :: "char \<Rightarrow> string \<Rightarrow> string \<times> string" where
  "split_once c s = (takeWhile (\<lambda>x. x \<noteq> c) s, drop 1 (dropWhile (\<lambda>x. x \<noteq> c) s))"

fun py_split :: "char \<Rightarrow> string \<Rightarrow> string list" where
  "py_split c [] = [[]]"
| "py_split c (x # xs) =
     (if x = c then [] # py_split c xs
      else case py_split c xs of
             p # ps \<Rightarrow> (x # p) # ps
           | [] \<Rightarrow> [[x]])"

record parse_result =
  scheme :: string
  netloc :: string
  path :: string
  params :: string
  query :: string
  fragment :: string

text \<open>
  \<^verbatim>\<open>scheme_chars\<close> are the ASCII letters, digits and \<open>+-.\<close>;
  \<^verbatim>\<open>uses_params\<close> lists the schemes whose last path segment may carry
  \<open>;parameters\<close>.
\<close>

definition scheme_chars :: "char \<Rightarrow> bool" where
  "scheme_chars c = (is_lower c \<or> is_upper c \<or> is_digit c \<or> c \<in> set ''+-.'')"

definition uses_params :: "string list" where
  "uses_params = ['''', ''ftp'', ''hdl'', ''prospero'', ''http'', ''imap'', ''https'',
     ''shttp'', ''rtsp'', ''rtsps'', ''rtspu'', ''sip'', ''sips'', ''mms'', ''sftp'', ''tel'']"

text \<open>
  \<^verbatim>\<open>_splitnetloc(url, 2)\<close>: the network location runs from index 2 to the first of
  \<open>/\<close>, \<open>?\<close>, \<open>#\<close>, or to the end.
\<close>

definition splitnetloc :: "string \<Rightarrow> string \<times> string" where
  "splitnetloc url =
     (takeWhile (\<lambda>c. c \<notin> set ''/?#'') (drop 2 url),
      dropWhile (\<lambda>c. c \<notin> set ''/?#'') (drop 2 url))"

text \<open>
  A host in brackets is handed to \<open>ipaddress.ip_address\<close>, which \<open>urlsplit\<close> uses
  only to learn whether the text is an address. The predicates below are true when the
  constructor of that name returns and false when it raises.

  \<^verbatim>\<open>IPv4Address._parse_octet\<close>: one to three ASCII digits, no leading zero
  except in \<open>0\<close> itself, at most 255. \<^verbatim>\<open>IPv4Address\<close>: no \<open>/\<close>, not empty,
  four such octets separated by dots.
\<close>

definition dec_value :: "string \<Rightarrow> nat" where
  "dec_value s = foldl (\<lambda>a c. 10 * a + (of_char c - 48)) 0 s"

definition parse_octet :: "string \<Rightarrow> bool" where
  "parse_octet s =
     (if s = [] then False
      else if \<not> list_all is_digit s then False
      else if 3 < length s then False
      else if s \<noteq> ''0'' \<and> take 1 s = ''0'' then False
      else dec_value s \<le> 255)"

definition ipv4_address :: "string \<Rightarrow> bool" where
  "ipv4_address s =
     (if CHR ''/'' \<in> set s then False
      else if s = [] then False
      else if length (py_split CHR ''.'' s) \<noteq> 4 then False
      else list_all parse_octet (py_split CHR ''.'' s))"

definition is_hexdigit :: "char \<Rightarrow> bool" where
  "is_hexdigit c = (is_digit c \<or> in_range CHR ''a'' CHR ''f'' c \<or> in_range CHR ''A'' CHR ''F'' c)"

text \<open>
  \<^verbatim>\<open>IPv6Address._parse_hextet\<close>: hexadecimal digits only, at most four, and
  \<open>int(s, 16)\<close> raises on the empty string.
\<close>

definition parse_hextet :: "string \<Rightarrow> bool" where
  "parse_hextet s = (list_all is_hexdigit s \<and> length s \<le> 4 \<and> s \<noteq> [])"

text \<open>
  The second half of \<^verbatim>\<open>IPv6Address._ip_int_from_string\<close>, on the parts between
  the colons: at most nine parts; an empty part that is neither the first nor the last
  stands for \<open>::\<close> and may occur once; with it, an empty first (last) part is allowed
  only next to it and fewer than eight parts remain; without it there are exactly eight
  parts, the first and the last not empty; the parts that remain are hextets.
\<close>

definition ipv6_parts :: "string list \<Rightarrow> bool" where
  "ipv6_parts parts =
     (let n = length parts in
      if 9 < n then False
      else case filter (\<lambda>i. parts ! i = []) [1 ..< n - 1] of
             [] \<Rightarrow>
               (if n \<noteq> 8 then False
                else if parts ! 0 = [] then False
                else if last parts = [] then False
                else list_all parse_hextet parts)
           | [skip_index] \<Rightarrow>
               (let parts_hi = (if parts ! 0 = [] then skip_index - 1 else skip_index);
                    parts_lo = (if last parts = [] then n - skip_index - 1 - 1
                                else n - skip_index - 1)
                in if parts ! 0 = [] \<and> parts_hi \<noteq> 0 then False
                   else if last parts = [] \<and> parts_lo \<noteq> 0 then False
                   else if 8 - int (parts_hi + parts_lo) < 1 then False
                   else list_all parse_hextet (take parts_hi parts @ drop (n - parts_lo) parts))
           | _ \<Rightarrow> False)"

text \<open>
  \<^verbatim>\<open>IPv6Address\<close>: no \<open>/\<close>; a scope id after \<open>%\<close> is not empty and holds no
  further \<open>%\<close>; the address before it is not empty and has at least three parts; a last
  part with a dot is an IPv4 address and is replaced by the two hextets it stands for
  (written \<open>0\<close> here: they are hextets whatever the address is).
\<close>

definition ipv6_address :: "string \<Rightarrow> bool" where
  "ipv6_address s =
     (if CHR ''/'' \<in> set s then False
      else
        let (addr, scope_id) = split_once CHR ''%'' s in
        if CHR ''%'' \<in> set s \<and> (scope_id = [] \<or> CHR ''%'' \<in> set scope_id) then False
        else if addr = [] then False
        else
          let parts = py_split CHR '':'' addr in
          if length parts < 3 then False
          else if CHR ''.'' \<in> set (last parts) then
            (if ipv4_address (last parts) then ipv6_parts (butlast parts @ [''0'', ''0''])
             else False)
          else ipv6_parts parts)"

text \<open>
  \<^verbatim>\<open>re.match(r"\Av[a-fA-F0-9]+\..+\Z", hostname)\<close>: \<open>v\<close>, a run of hexadecimal
  digits (the longest one, since a dot must follow it), a dot, and at least one more
  character, none of them a line feed.
\<close>

definition ipvfuture :: "string \<Rightarrow> bool" where
  "ipvfuture hostname =
     (let hex = takeWhile is_hexdigit (drop 1 hostname);
          rest = dropWhile is_hexdigit (drop 1 hostname)
      in take 1 hostname = ''v'' \<and> hex \<noteq> [] \<and> take 1 rest = ''.'' \<and>
         drop 1 rest \<noteq> [] \<and> CHR 0x0A \<notin> set (drop 1 rest))"

text \<open>
  \<^verbatim>\<open>_check_bracketed_host\<close> returns (true) or raises \<open>ValueError\<close> (false): a host
  that starts with \<open>v\<close> must match the pattern above; any other must be an address for
  \<open>ipaddress.ip_address\<close>, which tries \<open>IPv4Address\<close> first, and not an IPv4 one.
\<close>

definition check_bracketed_host :: "string \<Rightarrow> bool" where
  "check_bracketed_host hostname =
     (if take 1 hostname = ''v'' then ipvfuture hostname
      else if ipv4_address hostname then False
      else ipv6_address hostname)"

text \<open>
  \<open>urlsplit(url)\<close> with the default arguments. Leading characters up to the space
  (\<^verbatim>\<open>_WHATWG_C0_CONTROL_OR_SPACE\<close>) are stripped and every tab, carriage return and
  line feed is removed. The prefix before the first colon is the scheme when it is not
  empty, starts with an ASCII letter and is made of scheme characters. After \<open>//\<close> comes
  the network location: a bracket without its partner raises \<open>ValueError\<close>, and so does
  a host in brackets that fails the check above. Then the fragment and the query are
  split off. \<^verbatim>\<open>_checknetloc\<close> only inspects a network location with characters
  outside ASCII, and raises for none whose code points are below 256, so it has no
  counterpart here.
\<close>

definition c0_control_or_space :: "char \<Rightarrow> bool" where
  "c0_control_or_space c = ((of_char c :: nat) \<le> 32)"

definition unsafe_url_byte :: "char \<Rightarrow> bool" where
  "unsafe_url_byte c = (c \<in> set [CHR 0x09, CHR 0x0D, CHR 0x0A])"

definition bracketed_host :: "string \<Rightarrow> string" where
  "bracketed_host nl =
     takeWhile (\<lambda>c. c \<noteq> CHR '']'') (drop 1 (dropWhile (\<lambda>c. c \<noteq> CHR ''['') nl))"

definition urlsplit ::
  "string \<Rightarrow> py_error + (string \<times> string \<times> string \<times> string \<times> string)" where
  "urlsplit url0 =
     (let url = filter (\<lambda>c. \<not> unsafe_url_byte c) (dropWhile c0_control_or_space url0);
          (sch, url1) =
            (case py_find CHR '':'' url of
               None \<Rightarrow> ('''', url)
             | Some i \<Rightarrow>
                 if 0 < i \<and> list_all (\<lambda>c. is_lower c \<or> is_upper c) (take 1 url) \<and>
                    list_all scheme_chars (take i url)
                 then (lower (take i url), drop (Suc i) url)
                 else ('''', url));
          (nl, url2) = (if take 2 url1 = ''//'' then splitnetloc url1 else ('''', url1))
      in if (CHR ''['' \<in> set nl \<and> CHR '']'' \<notin> set nl) \<or>
            (CHR '']'' \<in> set nl \<and> CHR ''['' \<notin> set nl)
         then Inl ValueError
         else if CHR ''['' \<in> set nl \<and> CHR '']'' \<in> set nl \<and>
                 \<not> check_bracketed_host (bracketed_host nl)
         then Inl ValueError
         else
           let (url3, frag) =
                 (if CHR ''#'' \<in> set url2 then split_once CHR ''#'' url2 else (url2, ''''));
               (url4, qry) =
                 (if CHR ''?'' \<in> set url3 then split_once CHR ''?'' url3 else (url3, ''''))
           in Inr (sch, nl, url4, qry, frag))"

text \<open>
  \<^verbatim>\<open>_splitparams\<close>: the parameters start at the first \<open>;\<close> of the last path
  segment.
\<close>

definition rfind_slash :: "string \<Rightarrow> nat" where
  "rfind_slash url = length url - Suc (length (takeWhile (\<lambda>x. x \<noteq> CHR ''/'') (rev url)))"

definition splitparams :: "string \<Rightarrow> string \<times> string" where
  "splitparams url =
     (if CHR ''/'' \<in> set url then
        (let j = rfind_slash url in
         case py_find CHR '';'' (drop j url) of
           None \<Rightarrow> (url, '''')
         | Some k \<Rightarrow> (take (j + k) url, drop (Suc (j + k)) url))
      else
        (case py_find CHR '';'' url of
           None \<Rightarrow> (take (length url - 1) url, url)
         | Some i \<Rightarrow> (take i url, drop (Suc i) url)))"

definition urlparse :: "string \<Rightarrow> py_error + parse_result" where
  "urlparse url =
     (case urlsplit url of
        Inl e \<Rightarrow> Inl e
      | Inr (sch, nl, p, qry, frag) \<Rightarrow>
          (let (p', prm) = (if sch \<in> set uses_params \<and> CHR '';'' \<in> set p
                            then splitparams p else (p, ''''))
           in Inr \<lparr>scheme = sch, netloc = nl, path = p', params = prm,
                    query = qry, fragment = frag\<rparr>))"

subsection \<open>\<open>urllib.parse.parse_qs\<close>\<close>

text \<open>
  \<open>unquote\<close> replaces each \<open>%XX\<close>, \<open>XX\<close> two hexadecimal digits, by the byte it
  names, from left to right; a \<open>%\<close> followed by anything else stays. Python then decodes
  the bytes as UTF-8, which changes nothing when every escaped byte is below 0x80; the
  model keeps an escaped byte from 0x80 on as the character with that code.
\<close>

definition hexval :: "char \<Rightarrow> nat" where
  "hexval c =
     (if is_digit c then of_char c - 48
      else if is_lower c then of_char c - 87
      else of_char c - 55)"

fun unquote_pct :: "string \<Rightarrow> string" where
  "unquote_pct (c # h1 # h2 # cs) =
     (if c = CHR ''%'' \<and> is_hexdigit h1 \<and> is_hexdigit h2
      then char_of (16 * hexval h1 + hexval h2) # unquote_pct cs
      else c # unquote_pct (h1 # h2 # cs))"
| "unquote_pct cs = cs"

definition unquote :: "string \<Rightarrow> string" where
  "unquote s = (if CHR ''%'' \<in> set s then unquote_pct s else s)"

definition replace_plus :: "string \<Rightarrow> string" where
  "replace_plus s = map (\<lambda>c. if c = CHR ''+'' then CHR '' '' else c) s"

text \<open>
  One field of the query string, as the loop body of \<open>parse_qsl\<close> treats it with
  \<open>keep_blank_values\<close> and \<open>strict_parsing\<close> off: an empty field, a field without
  \<open>=\<close> and a field with an empty value are skipped.
\<close>

definition qsl_field :: "string \<Rightarrow> (string \<times> string) list" where
  "qsl_field name_value =
     (if name_value = [] then []
      else if CHR ''='' \<notin> set name_value then []
      else let (n, v) = split_once CHR ''='' name_value in
           if v = [] then []
           else [(unquote (replace_plus n), unquote (replace_plus v))])"

text \<open>
  \<open>parse_qsl\<close> with the default arguments: the fields of the query string are
  separated by \<open>&\<close>, the default \<open>separator\<close>, and by nothing else. A \<open>;\<close> is an
  ordinary character of a field, so the query \<open>a=commit;h=deadbeef\<close> is one field
  named \<open>a\<close>.
\<close>

definition parse_qsl :: "string \<Rightarrow> (string \<times> string) list" where
  "parse_qsl qs = concat (map qsl_field (py_split CHR ''&'' qs))"

text \<open>
  A \<open>dict\<close> with string keys is an association list with distinct keys, in
  insertion order. \<open>parse_qs\<close> collects the values of a repeated name in a list.
\<close>

definition dict_append :: "(string \<times> string list) list \<Rightarrow> string \<times> string \<Rightarrow> (string \<times> string list) list" where
  "dict_append d nv =
     (case map_of d (fst nv) of
        None \<Rightarrow> d @ [(fst nv, [snd nv])]
      | Some vs \<Rightarrow> AList.update (fst nv) (vs @ [snd nv]) d)"

definition parse_qs :: "string \<Rightarrow> (string \<times> string list) list" where
  "parse_qs qs = foldl dict_append [] (parse_qsl qs)"

text \<open>\<open>d[k]\<close> raises \<open>KeyError\<close> for a missing key, \<open>xs[0]\<close> \<open>IndexError\<close> on \<open>[]\<close>.\<close>

definition getitem :: "(string \<times> 'v) list \<Rightarrow> string \<Rightarrow> py_error + 'v" where
  "getitem d k = (case map_of d k of None \<Rightarrow> Inl KeyError | Some v \<Rightarrow> Inr v)"

fun item0 :: "'a list \<Rightarrow> py_error + 'a" where
  "item0 [] = Inl IndexError"
| "item0 (x # xs) = Inr x"

text \<open>\<open>sub in s\<close> for strings: \<open>sub\<close> occurs in \<open>s\<close> as a contiguous piece.\<close>

fun contains :: "string \<Rightarrow> string \<Rightarrow> bool" where
  "contains [] sub = (sub = [])"
| "contains (x # xs) sub = (take (length sub) (x # xs) = sub \<or> contains xs sub)"

section \<open>predict/cve.py\<close>

subsection \<open>Links to commits on GitHub (lines 109--146)\<close>

text \<open>
  \<^verbatim>\<open>github_pattern = re.compile(
    "\/?([A-Za-z0-9\-]+)\/([A-Za-z0-9\-]+)\/commit\/([0-9a-f]{5,40})\/?$")\<close>
\<close>

definition name_char :: "char \<Rightarrow> bool" where
  "name_char c = (is_upper c \<or> is_lower c \<or> is_digit c \<or> c = CHR ''-'')"

definition hash_char :: "char \<Rightarrow> bool" where
  "hash_char c = (is_digit c \<or> in_range CHR ''a'' CHR ''f'' c)"

definition github_pattern :: "re_item list" where
  "github_pattern =
     [OptLit CHR ''/'', Rep True name_char 1 None, Lit CHR ''/'', Rep True name_char 1 None]
     @ map Lit ''/commit/''
     @ [Rep True hash_char 5 (Some 40), OptLit CHR ''/'', Dollar]"

definition is_github_link :: "parse_result \<Rightarrow> bool" where
  "is_github_link parsed_link =
     ((netloc parsed_link = ''github.com'' \<or> netloc parsed_link = ''www.github.com'')
      \<and> re_match github_pattern (path parsed_link) \<noteq> None)"

text \<open>
  \<open>flask.url_for\<close> is a parameter of the model: a function from the endpoint and the
  keyword arguments, in the order the call writes them, to the URL.
  \<open>match.group(i)\<close> on a failed match raises \<open>AttributeError\<close>.
\<close>

type_synonym url_for = "string \<Rightarrow> (string \<times> string) list \<Rightarrow> string"

definition convert_github_link :: "url_for \<Rightarrow> string \<Rightarrow> parse_result \<Rightarrow> py_error + string" where
  "convert_github_link url_for cve_id parsed_link =
     (case re_match github_pattern (path parsed_link) of
        Some (g1 # g2 # g3 # _) \<Rightarrow>
          Inr (url_for ''main.info_page''
                 [(''cve_id'', cve_id), (''repo_user'', g1), (''repo_name'', g2), (''commit'', g3)])
      | Some _ \<Rightarrow> Inl IndexError
      | None \<Rightarrow> Inl AttributeError)"

subsection \<open>Links to commits on known mirrors (lines 149--199)\<close>

definition known_repositories :: "(string \<times> (string \<times> string)) list" where
  "known_repositories =
     [(''git.qemu.org'', (''qemu'', ''qemu'')),
      (''git.openssl.org'', (''openssl'', ''openssl'')),
      (''git.kernel.org'', (''torvalds'', ''linux'')),
      (''git.videolan.org'', (''FFmpeg'', ''FFmpeg'')),
      (''git.libav.org'', (''libav'', ''libav'')),
      (''libvirt.org'', (''libvirt'', ''libvirt''))]"

text \<open>
  The \<open>and\<close> of the last line is Python's: its right operand, with the two
  subscripts, is evaluated only when the host is a key of the table.
\<close>

definition is_git_link :: "parse_result \<Rightarrow> py_error + bool" where
  "is_git_link parsed_link =
     (let qry = parse_qs (query parsed_link) in
      case map_of qry ''a'' of
        None \<Rightarrow> Inr False
      | Some vs \<Rightarrow>
          if map_of known_repositories (netloc parsed_link) = None then Inr False
          else (case item0 vs of Inl e \<Rightarrow> Inl e | Inr a \<Rightarrow> Inr (contains a ''commit'')))"

definition convert_git_link :: "url_for \<Rightarrow> string \<Rightarrow> parse_result \<Rightarrow> py_error + string" where
  "convert_git_link url_for cve_id parsed_link =
     (let qry = parse_qs (query parsed_link) in
      case getitem known_repositories (netloc parsed_link) of
        Inl e \<Rightarrow> Inl e
      | Inr (repo_user, repo_name) \<Rightarrow>
          (case getitem qry ''h'' of
             Inl e \<Rightarrow> Inl e
           | Inr hs \<Rightarrow>
               (case item0 hs of
                  Inl e \<Rightarrow> Inl e
                | Inr commit \<Rightarrow>
                    Inr (url_for ''main.info_page''
                           [(''cve_id'', cve_id), (''repo_user'', repo_user),
                            (''repo_name'', repo_name), (''commit'', commit)]))))"

subsection \<open>\<open>process_cve\<close> (lines 61--91)\<close>

text \<open>
  \<open>classify_link\<close> is the body of the loop over the links: the link is parsed, the
  two rules are tried in order, and the link goes to \<open>git_links\<close>, as the pair of the
  link and its converted form, or to \<open>normal_links\<close>, as it is. An exception raised on
  the way leaves the loop and \<open>process_cve\<close>.
\<close>

datatype link_class = Git_link "string \<times> string" | Normal_link string

definition classify_link :: "url_for \<Rightarrow> string \<Rightarrow> string \<Rightarrow> py_error + link_class" where
  "classify_link url_for cve_id link =
     (case urlparse link of
        Inl e \<Rightarrow> Inl e
      | Inr parsed_link \<Rightarrow>
          if is_github_link parsed_link then
            (case convert_github_link url_for cve_id parsed_link of
               Inl e \<Rightarrow> Inl e
             | Inr c \<Rightarrow> Inr (Git_link (link, c)))
          else
            (case is_git_link parsed_link of
               Inl e \<Rightarrow> Inl e
             | Inr True \<Rightarrow>
                 (case convert_git_link url_for cve_id parsed_link of
                    Inl e \<Rightarrow> Inl e
                  | Inr c \<Rightarrow> Inr (Git_link (link, c)))
             | Inr False \<Rightarrow> Inr (Normal_link link)))"

text \<open>
  The entry that \<open>scrape_cve\<close> returns has the keys \<open>id\<close>, \<open>desc\<close> and \<open>links\<close>;
  \<open>process_cve\<close> deletes \<open>links\<close> and adds \<open>git_links\<close> and \<open>normal_links\<close>, both
  empty at first and appended to in the order of the links.
\<close>

record raw_entry =
  raw_id :: string
  raw_desc :: string
  raw_links :: "string list"

record cve_entry =
  entry_id :: string
  entry_desc :: string
  git_links :: "(string \<times> string) list"
  normal_links :: "string list"

fun process_links ::
  "url_for \<Rightarrow> string \<Rightarrow> string list \<Rightarrow> (string \<times> string) list \<Rightarrow> string list
   \<Rightarrow> py_error + ((string \<times> string) list \<times> string list)" where
  "process_links url_for cve_id [] gs ns = Inr (gs, ns)"
| "process_links url_for cve_id (link # ls) gs ns =
     (case classify_link url_for cve_id link of
        Inl e \<Rightarrow> Inl e
      | Inr (Git_link g) \<Rightarrow> process_links url_for cve_id ls (gs @ [g]) ns
      | Inr (Normal_link n) \<Rightarrow> process_links url_for cve_id ls gs (ns @ [n]))"

definition process_cve :: "url_for \<Rightarrow> raw_entry \<Rightarrow> py_error + cve_entry" where
  "process_cve url_for entry =
     (case process_links url_for (raw_id entry) (raw_links entry) [] [] of
        Inl e \<Rightarrow> Inl e
      | Inr (gs, ns) \<Rightarrow>
          Inr \<lparr>entry_id = raw_id entry, entry_desc = raw_desc entry,
               git_links = gs, normal_links = ns\<rparr>)"

subsection \<open>\<open>scrape_cve\<close> and \<open>get_cve\<close> (lines 10--58)\<close>

text \<open>
  The network is explicit state: \<open>reply\<close> is what the NVD service answers to the GET
  of a URL (or the exception \<open>requests.get\<close> raises), and \<open>requested\<close> is the log of
  the URLs requested so far. A response is modelled by what \<open>scrape_cve\<close> reads of it:
  \<open>response.ok\<close>, and of its JSON body the list \<open>result.CVE_Items\<close>, each item with the
  values of \<open>cve.description.description_data\<close> and the URLs of
  \<open>cve.references.reference_data\<close>, typed as the NVD feed types them.
\<close>

record nvd_item =
  description_data :: "string list"
  reference_data :: "string list"

record response =
  ok :: bool
  cve_items :: "nvd_item list"

record world =
  reply :: "string \<Rightarrow> py_error + response"
  requested :: "string list"

definition requests_get :: "world \<Rightarrow> string \<Rightarrow> (py_error + response) \<times> world" where
  "requests_get w url = (reply w url, w\<lparr>requested := requested w @ [url]\<rparr>)"

definition scrape_cve :: "world \<Rightarrow> string \<Rightarrow> (py_error + raw_entry option) \<times> world" where
  "scrape_cve w cve_id =
     (let url = ''https://services.nvd.nist.gov/rest/json/cve/1.0/'' @ cve_id;
          (r, w') = requests_get w url
      in case r of
           Inl e \<Rightarrow> (Inl e, w')
         | Inr resp \<Rightarrow>
             if \<not> ok resp then (Inr None, w')
             else (case item0 (cve_items resp) of
                     Inl e \<Rightarrow> (Inl e, w')
                   | Inr cve \<Rightarrow>
                       (case item0 (description_data cve) of
                          Inl e \<Rightarrow> (Inl e, w')
                        | Inr d \<Rightarrow>
                            (Inr (Some \<lparr>raw_id = cve_id, raw_desc = d,
                                        raw_links = reference_data cve\<rparr>), w'))))"

definition get_cve :: "url_for \<Rightarrow> world \<Rightarrow> string \<Rightarrow> (py_error + cve_entry option) \<times> world" where
  "get_cve url_for w cve_id0 =
     (let cve_id = upper cve_id0 in
      if is_valid_cve_id cve_id then
        (case scrape_cve w cve_id of
           (Inl e, w') \<Rightarrow> (Inl e, w')
         | (Inr None, w') \<Rightarrow> (Inr None, w')
         | (Inr (Some raw_cve), w') \<Rightarrow>
             (case process_cve url_for raw_cve of
                Inl e \<Rightarrow> (Inl e, w')
              | Inr entry \<Rightarrow> (Inr (Some entry), w')))
      else (Inr None, w))"

text \<open>
  The route of \<open>info_page\<close> (views.py, line 281), filled with the keyword arguments as
  \<open>flask.url_for\<close> fills it for values that need no quoting. It stands for the
  \<open>url_for\<close> parameter where a statement is about concrete values only.
\<close>

definition kwarg :: "(string \<times> string) list \<Rightarrow> string \<Rightarrow> string" where
  "kwarg kw k = (case map_of kw k of None \<Rightarrow> [] | Some v \<Rightarrow> v)"

definition info_page_url :: url_for where
  "info_page_url endpoint kw =
     ''/cve/'' @ kwarg kw ''cve_id'' @ ''/info/'' @ kwarg kw ''repo_user'' @ ''/''
     @ kwarg kw ''repo_name'' @ ''/'' @ kwarg kw ''commit''"

section \<open>Notions used to state the properties\<close>

text \<open>
  A link counts as a commit link when the loop body puts it into \<open>git_links\<close>.
\<close>

definition commit_link :: "url_for \<Rightarrow> string \<Rightarrow> string \<Rightarrow> bool" where
  "commit_link url_for cve_id link =
     (case classify_link url_for cve_id link of Inr (Git_link _) \<Rightarrow> True | _ \<Rightarrow> False)"

text \<open>
  The format of a vulnerability identifier as the specification words it: \<open>CVE-\<close>,
  four digits, a hyphen, four to seven digits, and nothing else.
\<close>

definition cve_format :: "string \<Rightarrow> bool" where
  "cve_format s =
     (take 4 s = ''CVE-'' \<and> length (take 4 (drop 4 s)) = 4 \<and> list_all is_digit (take 4 (drop 4 s))
      \<and> take 1 (drop 8 s) = ''-'' \<and> 4 \<le> length (drop 9 s) \<and> length (drop 9 s) \<le> 7
      \<and> list_all is_digit (drop 9 s))"

text \<open>The number of capturing items of a pattern.\<close>

fun n_groups :: "re_item list \<Rightarrow> nat" where
  "n_groups [] = 0"
| "n_groups (Rep True cls lo hi # r) = Suc (n_groups r)"
| "n_groups (x # r) = n_groups r"

subsection \<open>Concrete inputs\<close>

text \<open>A service that answers every request with a response that is not ok.\<close>

definition nvd_down :: world where
  "nvd_down = \<lparr>reply = (\<lambda>url. Inr \<lparr>ok = False, cve_items = []\<rparr>), requested = []\<rparr>"

text \<open>
  An entry with a link that occurs twice and two different links to the same commit.
\<close>

definition example_entry :: raw_entry where
  "example_entry =
     \<lparr>raw_id = ''CVE-2021-12345'', raw_desc = ''demo'',
      raw_links =
        [''https://example.com/patch.diff'',
         ''https://github.com/foo/bar/commit/abcdef1'',
         ''https://example.com/patch.diff'',
         ''https://www.github.com/foo/bar/commit/abcdef1/'',
         ''https://git.kernel.org/?a=commit&h=deadbeef'']\<rparr>"

definition example_record :: cve_entry where
  "example_record =
     \<lparr>entry_id = ''CVE-2021-12345'', entry_desc = ''demo'',
      git_links =
        [(''https://github.com/foo/bar/commit/abcdef1'',
          ''/cve/CVE-2021-12345/info/foo/bar/abcdef1''),
         (''https://www.github.com/foo/bar/commit/abcdef1/'',
          ''/cve/CVE-2021-12345/info/foo/bar/abcdef1''),
         (''https://git.kernel.org/?a=commit&h=deadbeef'',
          ''/cve/CVE-2021-12345/info/torvalds/linux/deadbeef'')],
      normal_links = [''https://example.com/patch.diff'', ''https://example.com/patch.diff'']\<rparr>"

text \<open>
  A service that has this entry, under the URL of \<open>CVE-2021-12345\<close>, and answers every
  other request with a response that is not ok.
\<close>

definition nvd_has_example :: world where
  "nvd_has_example =
     \<lparr>reply = (\<lambda>url.
        if url = ''https://services.nvd.nist.gov/rest/json/cve/1.0/CVE-2021-12345''
        then Inr \<lparr>ok = True,
                  cve_items = [\<lparr>description_data = [raw_desc example_entry],
                                reference_data = raw_links example_entry\<rparr>]\<rparr>
        else Inr \<lparr>ok = False, cve_items = []\<rparr>),
      requested = []\<rparr>"

section \<open>The matcher on the two patterns\<close>

declare re_items.simps(6) [simp del]

lemma try_down_top: "lo \<le> k \<Longrightarrow> f k = Some y \<Longrightarrow> try_down f lo k = Some y"
  by (cases k) auto

lemma try_down_none: "(\<And>n. n \<le> k \<Longrightarrow> f n = None) \<Longrightarrow> try_down f lo k = None"
  by (induction k) auto

lemma try_down_only_top:
  assumes "lo \<le> k" and "\<And>n. n < k \<Longrightarrow> f n = None"
  shows "try_down f lo k = f k"
proof (cases "f k")
  case None
  with assms(2) have "\<And>n. n \<le> k \<Longrightarrow> f n = None"
    by (metis le_neq_implies_less)
  then show ?thesis using None by (simp add: try_down_none)
next
  case (Some y)
  then show ?thesis using assms(1) by (simp add: try_down_top)
qed

lemma try_down_Some:
  "try_down f lo k = Some y \<Longrightarrow> \<exists>n. lo \<le> n \<and> n \<le> k \<and> f n = Some y"
proof (induction k)
  case 0
  then show ?case by (auto split: if_splits)
next
  case (Suc k)
  then show ?case
    by (auto split: if_splits option.splits) (metis le_Suc_eq not_less)+
qed

lemma takeWhile_run: "list_all cls xs \<Longrightarrow> \<not> cls c \<Longrightarrow> takeWhile cls (xs @ c # rest) = xs"
  by (induction xs) auto

text \<open>
  Inside the longest run of class characters a literal outside the class cannot match:
  a repetition followed by such a literal has one way to match at most.
\<close>

lemma lit_fails_inside_run:
  assumes "n < length (takeWhile cls s)" and "\<not> cls c"
  shows "re_items (Lit c # r) pos (drop n s) = None"
proof -
  have s: "s = takeWhile cls s @ dropWhile cls s" by simp
  from assms(1) obtain x xs where d: "drop n (takeWhile cls s) = x # xs"
    by (cases "drop n (takeWhile cls s)") auto
  then have "x \<in> set (takeWhile cls s)" by (metis in_set_dropD list.set_intros(1))
  then have "cls x" by (meson set_takeWhileD)
  have "drop n s = drop n (takeWhile cls s) @ dropWhile cls s"
    using assms(1) by (metis s drop_append less_imp_le_nat diff_is_0_eq drop0)
  with d have "drop n s = x # xs @ dropWhile cls s" by simp
  with \<open>cls x\<close> assms(2) show ?thesis by auto
qed

lemma rep_then_lit:
  assumes "\<not> cls c" and "list_all cls xs" and "lo \<le> length xs"
    and "case hi of None \<Rightarrow> True | Some h \<Rightarrow> length xs \<le> h"
  shows "re_items (Rep g cls lo hi # Lit c # r) pos (xs @ c # rest) =
         map_option (\<lambda>gs. if g then xs # gs else gs) (re_items r (Suc (pos + length xs)) rest)"
proof -
  have tw: "takeWhile cls (xs @ c # rest) = xs" using assms by (simp add: takeWhile_run)
  have k: "greedy_max cls hi (xs @ c # rest) = length xs"
    using assms(4) by (simp add: greedy_max_def Let_def tw split: option.splits)
  have "\<And>n. n < length xs \<Longrightarrow> re_items (Lit c # r) (pos + n) (drop n (xs @ c # rest)) = None"
    using lit_fails_inside_run[of _ cls "xs @ c # rest" c r] tw assms(1) by simp
  then have "re_items (Rep g cls lo hi # Lit c # r) pos (xs @ c # rest) =
        map_option (\<lambda>gs. if g then take (length xs) (xs @ c # rest) # gs else gs)
          (re_items (Lit c # r) (pos + length xs) (drop (length xs) (xs @ c # rest)))"
    using assms(3) by (simp add: re_items.simps(6) k try_down_only_top del: re_items.simps(4))
  then show ?thesis by (simp cong: if_cong)
qed

lemma rep_lit_none:
  assumes "\<not> cls c" and "dropWhile cls s = [] \<or> hd (dropWhile cls s) \<noteq> c"
  shows "re_items (Rep g cls lo hi # Lit c # r) pos s = None"
proof -
  have "re_items (Lit c # r) (pos + n) (drop n s) = None"
    if "n \<le> greedy_max cls hi s" for n
  proof (cases "n < length (takeWhile cls s)")
    case True
    then show ?thesis using assms(1) by (rule lit_fails_inside_run)
  next
    case False
    with that have "n = length (takeWhile cls s)"
      by (auto simp: greedy_max_def Let_def split: option.splits)
    then have "drop n s = dropWhile cls s"
      by (metis append_eq_conv_conj takeWhile_dropWhile_id)
    with assms(2) show ?thesis by (cases "dropWhile cls s") auto
  qed
  then show ?thesis by (simp add: re_items.simps(6) try_down_none del: re_items.simps(4))
qed

lemma rep_at_nonclass:
  assumes "\<not> cls x" and "0 < lo"
  shows "re_items (Rep g cls lo hi # r) pos (x # s) = None"
proof -
  have "greedy_max cls hi (x # s) = 0"
    using assms(1) by (simp add: greedy_max_def split: option.splits)
  then show ?thesis using assms(2) by (simp add: re_items.simps(6))
qed

lemma dropWhile_bad_segment:
  assumes "\<not> list_all cls seg" and "c \<notin> set seg"
  shows "dropWhile cls (seg @ rest) = [] \<or> hd (dropWhile cls (seg @ rest)) \<noteq> c"
proof -
  from assms(1) obtain x where x: "x \<in> set seg" "\<not> cls x"
    by (auto simp: list_all_iff)
  then have d: "dropWhile cls (seg @ rest) = dropWhile cls seg @ rest"
    by (rule dropWhile_append1)
  from x have ne: "dropWhile cls seg \<noteq> []" by (auto simp: dropWhile_eq_Nil_conv)
  then have "hd (dropWhile cls seg) \<in> set seg"
    by (metis hd_in_set set_dropWhileD)
  with assms(2) ne show ?thesis by (auto simp: d)
qed

text \<open>What a successful match says about the string.\<close>

lemma rep_SomeD:
  assumes "re_items (Rep g cls lo hi # r) pos s = Some gs"
  obtains n where "lo \<le> n" and "case hi of None \<Rightarrow> True | Some h \<Rightarrow> n \<le> h"
    and "n \<le> length s" and "list_all cls (take n s)"
    and "re_items r (pos + n) (drop n s) \<noteq> None"
proof -
  from assms obtain n where n: "lo \<le> n" "n \<le> greedy_max cls hi s"
    and f: "map_option (\<lambda>x. if g then take n s # x else x) (re_items r (pos + n) (drop n s)) = Some gs"
    unfolding re_items.simps(6) by (blast dest: try_down_Some)
  from n(2) have le: "n \<le> length (takeWhile cls s)"
    and hi: "case hi of None \<Rightarrow> True | Some h \<Rightarrow> n \<le> h"
    by (auto simp: greedy_max_def Let_def split: option.splits)
  have "n \<le> length s" using le length_takeWhile_le[of cls s] by linarith
  moreover have "list_all cls (take n s)"
  proof -
    have "take n s = take n (takeWhile cls s)"
      using le by (metis append_eq_conv_conj takeWhile_dropWhile_id take_append diff_is_0_eq take_0 append_Nil2 take_take min.absorb1)
    then show ?thesis
      by (metis in_set_takeD list_all_iff set_takeWhileD)
  qed
  moreover have "re_items r (pos + n) (drop n s) \<noteq> None" using f by auto
  ultimately show ?thesis using n(1) hi that by blast
qed

lemma lit_SomeD:
  assumes "re_items (Lit c # r) pos s \<noteq> None"
  obtains s' where "s = c # s'" and "re_items r (Suc pos) s' \<noteq> None"
  using assms by (auto split: list.splits if_splits)

lemma optlit_SomeD:
  assumes "re_items (OptLit c # r) pos s \<noteq> None"
  obtains a s' p where "s = a @ s'" and "a = [] \<or> a = [c]" and "re_items r p s' \<noteq> None"
proof (cases "re_items r pos s")
  case None
  with assms have "(case s of [] \<Rightarrow> None
                   | x # xs \<Rightarrow> if x = c then re_items r (Suc pos) xs else None) \<noteq> None"
    by (simp split: option.splits)
  then obtain xs where "s = c # xs" "re_items r (Suc pos) xs \<noteq> None"
    by (cases s) (auto split: if_splits)
  then have "s = [c] @ xs" by simp
  then show ?thesis using that \<open>re_items r (Suc pos) xs \<noteq> None\<close> by blast
next
  case (Some a)
  then have "s = [] @ s" "re_items r pos s \<noteq> None" by simp_all
  then show ?thesis using that by blast
qed

lemma rep_NotNoneD:
  assumes "re_items (Rep g cls lo hi # r) pos s \<noteq> None"
  obtains xs s' p where "s = xs @ s'" and "lo \<le> length xs"
    and "case hi of None \<Rightarrow> True | Some h \<Rightarrow> length xs \<le> h"
    and "list_all cls xs" and "re_items r p s' \<noteq> None"
proof -
  from assms obtain gs where "re_items (Rep g cls lo hi # r) pos s = Some gs" by auto
  then obtain n where n: "lo \<le> n" "case hi of None \<Rightarrow> True | Some h \<Rightarrow> n \<le> h"
    "n \<le> length s" "list_all cls (take n s)" "re_items r (pos + n) (drop n s) \<noteq> None"
    by (rule rep_SomeD)
  have len: "length (take n s) = n" using n(3) by simp
  show ?thesis
  proof (rule that[of "take n s" "drop n s" "pos + n"])
    show "s = take n s @ drop n s" by simp
  qed (use n len in \<open>simp_all split: option.splits\<close>)
qed

text \<open>
  The number of groups of a match is the number of capturing items of the pattern.
\<close>

lemma re_items_groups: "re_items pat pos s = Some gs \<Longrightarrow> length gs = n_groups pat"
proof (induction pat arbitrary: pos s gs)
  case Nil
  then show ?case by simp
next
  case (Cons x pat)
  show ?case
  proof (cases x)
    case (Rep g cls lo hi)
    with Cons.prems obtain n gs' where "re_items pat (pos + n) (drop n s) = Some gs'"
      and "gs = (if g then take n s # gs' else gs')"
      unfolding Rep re_items.simps(6) by (auto dest!: try_down_Some)
    with Cons.IH show ?thesis using Rep by (cases g) auto
  qed (use Cons in \<open>auto split: list.splits if_splits option.splits\<close>)
qed

subsection \<open>\<open>cve_pattern\<close>\<close>

lemma not_digit_hyphen: "\<not> is_digit CHR ''-''"
  by (simp add: is_digit_def in_range_def)

lemma not_digit_newline: "\<not> is_digit (CHR 0x0A)"
  by (simp add: is_digit_def in_range_def)

lemma digits_tail_match:
  assumes "list_all is_digit n" and "4 \<le> length n" and "length n \<le> 7"
    and "t = [] \<or> t = [CHR 0x0A]"
  shows "re_items [Rep False is_digit 4 (Some 7), Dollar] pos (n @ t) = Some []"
proof -
  have tw: "takeWhile is_digit (n @ t) = n"
    using assms(1,4) not_digit_newline by (auto simp: takeWhile_run list_all_iff)
  have k: "greedy_max is_digit (Some 7) (n @ t) = length n"
    using assms(3) by (simp add: greedy_max_def Let_def tw)
  have "re_items [Dollar] (pos + length n) t = Some []"
    using assms(4) by auto
  then have "map_option (\<lambda>g. if False then take (length n) (n @ t) # g else g)
          (re_items [Dollar] (pos + length n) (drop (length n) (n @ t))) = Some []"
    by simp
  then show ?thesis
    using assms(2) by (simp only: re_items.simps(6) k try_down_top)
qed

lemma cve_format_iff:
  "cve_format s \<longleftrightarrow>
     (\<exists>y n. s = ''CVE-'' @ y @ ''-'' @ n \<and> length y = 4 \<and> list_all is_digit y
            \<and> 4 \<le> length n \<and> length n \<le> 7 \<and> list_all is_digit n)"
proof
  assume c: "cve_format s"
  let ?y = "take 4 (drop 4 s)" and ?n = "drop 9 s"
  from c have p: "take 4 s = ''CVE-''" "length ?y = 4" "take 1 (drop 8 s) = ''-''"
    by (simp_all add: cve_format_def)
  have "s = take 4 s @ drop 4 s" by simp
  also have "drop 4 s = ?y @ drop 4 (drop 4 s)" by (simp only: append_take_drop_id)
  also have "drop 4 (drop 4 s) = drop 8 s" by simp
  also have "drop 8 s = take 1 (drop 8 s) @ drop 1 (drop 8 s)" by (simp only: append_take_drop_id)
  also have "drop 1 (drop 8 s) = ?n" by simp
  finally have "s = ''CVE-'' @ ?y @ ''-'' @ ?n" using p by simp
  with c show "\<exists>y n. s = ''CVE-'' @ y @ ''-'' @ n \<and> length y = 4 \<and> list_all is_digit y
            \<and> 4 \<le> length n \<and> length n \<le> 7 \<and> list_all is_digit n"
    unfolding cve_format_def by blast
next
  assume "\<exists>y n. s = ''CVE-'' @ y @ ''-'' @ n \<and> length y = 4 \<and> list_all is_digit y
            \<and> 4 \<le> length n \<and> length n \<le> 7 \<and> list_all is_digit n"
  then show "cve_format s" by (auto simp: cve_format_def)
qed

lemma cve_format_valid:
  assumes "cve_format s" and "t = [] \<or> t = [CHR 0x0A]"
  shows "is_valid_cve_id (s @ t)"
proof -
  from assms(1) obtain y n where s: "s = ''CVE-'' @ y @ ''-'' @ n" and y: "length y = 4" "list_all is_digit y"
    and n: "4 \<le> length n" "length n \<le> 7" "list_all is_digit n"
    unfolding cve_format_iff by blast
  have tail: "re_items [Rep False is_digit 4 (Some 7), Dollar] pos (n @ t) = Some []" for pos
    using digits_tail_match[OF n(3) n(1) n(2) assms(2)] .
  have "re_items (Rep False is_digit 4 (Some 4) # Lit CHR ''-'' # [Rep False is_digit 4 (Some 7), Dollar])
          pos (y @ CHR ''-'' # n @ t) = Some []" for pos
    using rep_then_lit[OF not_digit_hyphen y(2), of 4 "Some 4" False
            "[Rep False is_digit 4 (Some 7), Dollar]" pos "n @ t"] y(1) tail
    by simp
  then show ?thesis
    by (simp add: is_valid_cve_id_def re_match_def cve_pattern_def s)
qed

lemma valid_cve_format:
  assumes "is_valid_cve_id s"
  shows "\<exists>s' t. s = s' @ t \<and> cve_format s' \<and> (t = [] \<or> t = [CHR 0x0A])"
proof -
  let ?r2 = "[Rep False is_digit 4 (Some 7), Dollar]"
  from assms obtain rest p where s: "s = ''CVE-'' @ rest"
    and m: "re_items (Rep False is_digit 4 (Some 4) # Lit CHR ''-'' # ?r2) p rest \<noteq> None"
    by (auto simp: is_valid_cve_id_def re_match_def cve_pattern_def
          split: list.splits if_splits)
  then obtain gs where "re_items (Rep False is_digit 4 (Some 4) # Lit CHR ''-'' # ?r2) p rest = Some gs"
    by auto
  then obtain k where k: "4 \<le> k" "k \<le> 4" "k \<le> length rest" "list_all is_digit (take k rest)"
    and m2: "re_items (Lit CHR ''-'' # ?r2) (p + k) (drop k rest) \<noteq> None"
    by (rule rep_SomeD) auto
  then have k4: "k = 4" by simp
  from m2 obtain rest2 q where r2: "drop 4 rest = CHR ''-'' # rest2"
    and m3: "re_items ?r2 q rest2 \<noteq> None"
    unfolding k4 by (auto split: list.splits if_splits)
  then obtain gs2 where "re_items ?r2 q rest2 = Some gs2" by auto
  then obtain j where j: "4 \<le> j" "j \<le> 7" "j \<le> length rest2" "list_all is_digit (take j rest2)"
    and m4: "re_items [Dollar] (q + j) (drop j rest2) \<noteq> None"
    by (rule rep_SomeD) auto
  let ?y = "take 4 rest" and ?n = "take j rest2" and ?t = "drop j rest2"
  have t: "?t = [] \<or> ?t = [CHR 0x0A]" using m4 by (auto split: if_splits)
  have "rest = ?y @ drop 4 rest" by simp
  then have rest: "rest = ?y @ CHR ''-'' # ?n @ ?t" using r2 by simp
  have ly: "length ?y = 4" using k(3) k4 by simp
  have ln: "length ?n = j" using j(3) by simp
  have "cve_format (''CVE-'' @ ?y @ ''-'' @ ?n)"
    unfolding cve_format_iff
  proof (intro exI conjI)
    show "''CVE-'' @ ?y @ ''-'' @ ?n = ''CVE-'' @ ?y @ ''-'' @ ?n" by (rule refl)
  qed (use ly ln j k(4) k4 in simp_all)
  moreover have "s = (''CVE-'' @ ?y @ ''-'' @ ?n) @ ?t" using s rest by simp
  ultimately show ?thesis using t by blast
qed

text \<open>
  What \<open>is_valid_cve_id\<close> accepts: the identifiers of the format, and the identifiers of
  the format followed by one line feed.
\<close>

lemma is_valid_cve_id_iff:
  "is_valid_cve_id s \<longleftrightarrow> cve_format s \<or> (\<exists>s'. s = s' @ [CHR 0x0A] \<and> cve_format s')"
proof
  assume "is_valid_cve_id s"
  from valid_cve_format[OF this] show "cve_format s \<or> (\<exists>s'. s = s' @ [CHR 0x0A] \<and> cve_format s')"
    by auto
next
  assume "cve_format s \<or> (\<exists>s'. s = s' @ [CHR 0x0A] \<and> cve_format s')"
  then show "is_valid_cve_id s"
    using cve_format_valid[of _ "[]"] cve_format_valid[of _ "[CHR 0x0A]"] by auto
qed

subsection \<open>\<open>github_pattern\<close>\<close>

lemma slash_not_name_char: "\<not> name_char CHR ''/''"
  by (simp add: name_char_def is_upper_def is_lower_def is_digit_def in_range_def)

lemma slash_not_hash_char: "\<not> hash_char CHR ''/''"
  by (simp add: hash_char_def is_digit_def in_range_def)

lemma hash_tail_match:
  assumes "list_all hash_char h" and "5 \<le> length h" and "length h \<le> 40"
    and "t = [] \<or> t = ''/''"
  shows "re_items [Rep True hash_char 5 (Some 40), OptLit CHR ''/'', Dollar] pos (h @ t) = Some [h]"
proof -
  have tw: "takeWhile hash_char (h @ t) = h"
    using assms(1,4) slash_not_hash_char by (auto simp: takeWhile_run list_all_iff)
  have k: "greedy_max hash_char (Some 40) (h @ t) = length h"
    using assms(3) by (simp add: greedy_max_def Let_def tw)
  have "re_items [OptLit CHR ''/'', Dollar] (pos + length h) t = Some []"
    using assms(4) by auto
  then have "map_option (\<lambda>g. if True then take (length h) (h @ t) # g else g)
          (re_items [OptLit CHR ''/'', Dollar] (pos + length h) (drop (length h) (h @ t))) = Some [h]"
    by simp
  then show ?thesis
    using assms(2) by (simp only: re_items.simps(6) k try_down_top)
qed

lemma github_pattern_match:
  assumes "owner \<noteq> []" and "list_all name_char owner"
    and "repo \<noteq> []" and "list_all name_char repo"
    and "list_all hash_char h" and "5 \<le> length h" and "length h \<le> 40"
    and "t = [] \<or> t = ''/''"
  shows "re_match github_pattern (''/'' @ owner @ ''/'' @ repo @ ''/commit/'' @ h @ t)
         = Some [owner, repo, h]"
proof -
  let ?tail = "[Rep True hash_char 5 (Some 40), OptLit CHR ''/'', Dollar]"
  let ?lits = "map Lit ''commit/'' @ ?tail"
  have lo1: "Suc 0 \<le> length owner" "Suc 0 \<le> length repo"
    using assms(1,3) by (simp_all add: Suc_le_eq)
  have ht: "\<And>pos. re_items ?tail pos (h @ t) = Some [h]"
    using hash_tail_match[OF assms(5-8)] .
  have c: "\<And>pos. re_items ?lits pos (''commit/'' @ h @ t) = Some [h]"
    by (simp add: ht)
  have r: "re_items (Rep True name_char 1 None # Lit CHR ''/'' # ?lits) pos
             (repo @ CHR ''/'' # ''commit/'' @ h @ t) = Some [repo, h]" for pos
    using rep_then_lit[OF slash_not_name_char assms(4), of 1 None True ?lits pos
            "''commit/'' @ h @ t"] lo1 c
    by simp
  have o: "re_items (Rep True name_char 1 None # Lit CHR ''/'' # Rep True name_char 1 None
                # Lit CHR ''/'' # ?lits) (Suc 0)
             (owner @ CHR ''/'' # repo @ CHR ''/'' # ''commit/'' @ h @ t) = Some [owner, repo, h]"
    using rep_then_lit[OF slash_not_name_char assms(2), of 1 None True
            "Rep True name_char 1 None # Lit CHR ''/'' # ?lits" "Suc 0"
            "repo @ CHR ''/'' # ''commit/'' @ h @ t"] lo1 r
    by simp
  show ?thesis
    unfolding re_match_def github_pattern_def using o by simp
qed

lemma github_pattern_no_match:
  assumes "CHR ''/'' \<notin> set owner" and "CHR ''/'' \<notin> set repo"
    and "\<not> (list_all name_char owner \<and> list_all name_char repo)"
  shows "re_match github_pattern (''/'' @ owner @ ''/'' @ repo @ rest) = None"
proof -
  let ?r2 = "Rep True name_char 1 None # Lit CHR ''/'' # map Lit ''commit/''
             @ [Rep True hash_char 5 (Some 40), OptLit CHR ''/'', Dollar]"
  let ?r1 = "Rep True name_char 1 None # Lit CHR ''/'' # ?r2"
  have second: "re_items ?r1 0 (CHR ''/'' # owner @ CHR ''/'' # repo @ rest) = None"
    by (rule rep_at_nonclass[where cls = name_char, OF slash_not_name_char]) simp
  have first: "re_items ?r1 (Suc 0) (owner @ CHR ''/'' # repo @ rest) = None"
  proof (cases "list_all name_char owner")
    case False
    then show ?thesis
      using dropWhile_bad_segment[OF False assms(1)]
      by (intro rep_lit_none[where cls = name_char, OF slash_not_name_char])
  next
    case True
    with assms(3) have bad: "\<not> list_all name_char repo" by simp
    show ?thesis
    proof (cases owner)
      case Nil
      then show ?thesis
        using rep_at_nonclass[where cls = name_char and lo = 1 and g = True and hi = None
                and r = "Lit CHR ''/'' # ?r2", OF slash_not_name_char]
        by simp
    next
      case (Cons a as)
      have "re_items ?r2 pos (repo @ rest) = None" for pos
        using dropWhile_bad_segment[OF bad assms(2)]
        by (intro rep_lit_none[where cls = name_char, OF slash_not_name_char])
      then show ?thesis
        using rep_then_lit[OF slash_not_name_char True, of 1 None True ?r2 "Suc 0" "repo @ rest"] Cons
        by simp
    qed
  qed
  show ?thesis
    unfolding re_match_def github_pattern_def using first second by simp
qed

text \<open>
  What \<open>github_pattern\<close> accepts: an optional slash, two non-empty segments of name
  characters, the segment \<open>commit\<close>, a hash of 5 to 40 hash characters, an optional
  slash and, because of \<open>$\<close>, an optional final line feed.
\<close>

lemma github_pattern_shape:
  assumes "re_match github_pattern s \<noteq> None"
  shows "\<exists>a owner repo h t.
           s = a @ owner @ ''/'' @ repo @ ''/commit/'' @ h @ t
         \<and> (a = [] \<or> a = ''/'')
         \<and> owner \<noteq> [] \<and> list_all name_char owner
         \<and> repo \<noteq> [] \<and> list_all name_char repo
         \<and> 5 \<le> length h \<and> length h \<le> 40 \<and> list_all hash_char h
         \<and> t \<in> {[], ''/'', [CHR 0x0A], [CHR ''/'', CHR 0x0A]}"
proof -
  let ?r3 = "[Rep True hash_char 5 (Some 40), OptLit CHR ''/'', Dollar]"
  let ?r2 = "Rep True name_char 1 None # Lit CHR ''/'' # map Lit ''commit/'' @ ?r3"
  let ?r1 = "Rep True name_char 1 None # Lit CHR ''/'' # ?r2"
  from assms have "re_items (OptLit CHR ''/'' # ?r1) 0 s \<noteq> None"
    by (simp add: re_match_def github_pattern_def)
  then obtain a s1 p1 where a: "s = a @ s1" "a = [] \<or> a = ''/''" and m1: "re_items ?r1 p1 s1 \<noteq> None"
    by (rule optlit_SomeD)
  from m1 obtain owner s1' p2 where o: "s1 = owner @ s1'" "1 \<le> length owner" "list_all name_char owner"
    and m2: "re_items (Lit CHR ''/'' # ?r2) p2 s1' \<noteq> None"
    by (rule rep_NotNoneD)
  from m2 obtain s2 where s2: "s1' = CHR ''/'' # s2" and m3: "re_items ?r2 (Suc p2) s2 \<noteq> None"
    by (rule lit_SomeD)
  from m3 obtain repo s2' p3 where r: "s2 = repo @ s2'" "1 \<le> length repo" "list_all name_char repo"
    and m4: "re_items (Lit CHR ''/'' # map Lit ''commit/'' @ ?r3) p3 s2' \<noteq> None"
    by (rule rep_NotNoneD)
  from m4 obtain s3 p4 where s3: "s2' = ''/commit/'' @ s3" and m5: "re_items ?r3 p4 s3 \<noteq> None"
    by (auto split: list.splits if_splits)
  from m5 obtain h t p5 where h: "s3 = h @ t" "5 \<le> length h" "length h \<le> 40" "list_all hash_char h"
    and m6: "re_items [OptLit CHR ''/'', Dollar] p5 t \<noteq> None"
    by (rule rep_NotNoneD) auto
  from m6 have t: "t \<in> {[], ''/'', [CHR 0x0A], [CHR ''/'', CHR 0x0A]}"
    by (auto split: list.splits if_splits)
  have "s = a @ owner @ ''/'' @ repo @ ''/commit/'' @ h @ t"
    using a(1) o(1) s2 r(1) s3 h(1) by simp
  moreover have "owner \<noteq> []" "repo \<noteq> []" using o(2) r(2) by auto
  ultimately show ?thesis using a(2) o(3) r(3) h(2-4) t by blast
qed

lemma github_pattern_groups:
  "re_match github_pattern s = Some gs \<Longrightarrow> \<exists>g1 g2 g3. gs = [g1, g2, g3]"
proof -
  assume "re_match github_pattern s = Some gs"
  then have "re_items github_pattern 0 s = Some gs" by (simp add: re_match_def)
  then have "length gs = n_groups github_pattern" by (rule re_items_groups)
  then have "length gs = 3" by (simp add: github_pattern_def)
  then show ?thesis
    by (metis (no_types, opaque_lifting) length_0_conv length_Suc_conv numeral_3_eq_3)
qed

lemma github_host_not_mirror:
  "netloc p = ''github.com'' \<or> netloc p = ''www.github.com'' \<Longrightarrow> is_git_link p = Inr False"
  by (auto simp: is_git_link_def known_repositories_def Let_def split: option.splits)

section \<open>Classification of one link\<close>

lemma dict_append_nonempty:
  assumes "\<And>k vs. map_of d k = Some vs \<Longrightarrow> vs \<noteq> []"
    and "map_of (dict_append d nv) k = Some vs"
  shows "vs \<noteq> []"
proof (cases "map_of d (fst nv)")
  case None
  then have "map_of (dict_append d nv) k = (map_of [(fst nv, [snd nv])] ++ map_of d) k"
    by (simp add: dict_append_def)
  with assms show ?thesis by (auto simp: map_add_def split: option.splits if_splits)
next
  case (Some ws)
  then have "map_of (dict_append d nv) = (map_of d)(fst nv \<mapsto> ws @ [snd nv])"
    by (simp add: dict_append_def update_conv')
  with assms show ?thesis by (auto split: if_splits)
qed

lemma foldl_dict_append_nonempty:
  assumes "\<And>k vs. map_of d k = Some vs \<Longrightarrow> vs \<noteq> []"
    and "map_of (foldl dict_append d nvs) k = Some vs"
  shows "vs \<noteq> []"
  using assms
proof (induction nvs arbitrary: d)
  case Nil
  then show ?case by simp
next
  case (Cons nv nvs)
  show ?case
  proof (rule Cons.IH[of "dict_append d nv"])
    show "\<And>k vs. map_of (dict_append d nv) k = Some vs \<Longrightarrow> vs \<noteq> []"
      using Cons.prems(1) by (rule dict_append_nonempty)
    show "map_of (foldl dict_append (dict_append d nv) nvs) k = Some vs"
      using Cons.prems(2) by simp
  qed
qed

text \<open>Every name of a parsed query has a value: the subscript \<open>[0]\<close> cannot fail.\<close>

lemma parse_qs_values_nonempty: "map_of (parse_qs qs) k = Some vs \<Longrightarrow> vs \<noteq> []"
  unfolding parse_qs_def by (rule foldl_dict_append_nonempty[of "[]"]) simp_all

lemma is_git_link_returns: "\<exists>b. is_git_link p = Inr b"
proof (cases "map_of (parse_qs (query p)) ''a''")
  case None
  then have "is_git_link p = Inr False" by (simp add: is_git_link_def)
  then show ?thesis by blast
next
  case (Some vs)
  then have "vs \<noteq> []" by (rule parse_qs_values_nonempty)
  then obtain v vs' where "vs = v # vs'" by (cases vs) auto
  with Some show ?thesis by (auto simp: is_git_link_def)
qed

lemma is_git_link_TrueD:
  assumes "is_git_link p = Inr True"
  shows "\<exists>u r. map_of known_repositories (netloc p) = Some (u, r)"
  using assms
  by (auto simp: is_git_link_def Let_def split: option.splits if_splits sum.splits)

lemma convert_github_link_returns:
  assumes "is_github_link p"
  shows "\<exists>c. convert_github_link url_for cve_id p = Inr c"
proof -
  from assms obtain gs where m: "re_match github_pattern (path p) = Some gs"
    by (auto simp: is_github_link_def)
  from github_pattern_groups[OF this] obtain g1 g2 g3 where "gs = [g1, g2, g3]" by blast
  with m show ?thesis by (simp add: convert_github_link_def)
qed

lemma urlparse_raises: "urlparse link = Inl e \<Longrightarrow> e = ValueError"
  by (auto simp: urlparse_def urlsplit_def Let_def
        split: sum.splits option.splits if_splits prod.splits)

text \<open>
  The loop body raises in two cases only: \<open>urlparse\<close> raises \<open>ValueError\<close> (a bracket
  without its partner in the network location, or a host in brackets that is no
  address), or the link is taken for a link to a known mirror and its query has no
  \<open>h\<close>.
\<close>

lemma classify_link_raises_iff:
  "classify_link url_for cve_id link = Inl e \<longleftrightarrow>
     (urlparse link = Inl ValueError \<and> e = ValueError) \<or>
     (\<exists>p. urlparse link = Inr p \<and> \<not> is_github_link p \<and> is_git_link p = Inr True
          \<and> map_of (parse_qs (query p)) ''h'' = None \<and> e = KeyError)"
proof (cases "urlparse link")
  case (Inl e')
  then show ?thesis using urlparse_raises[OF Inl] by (auto simp: classify_link_def)
next
  case (Inr p)
  show ?thesis
  proof (cases "is_github_link p")
    case True
    with convert_github_link_returns[OF True, of url_for cve_id] show ?thesis
      by (auto simp: classify_link_def Inr)
  next
    case False
    from is_git_link_returns[of p] obtain b where b: "is_git_link p = Inr b" by blast
    show ?thesis
    proof (cases b)
      case False
      with b \<open>\<not> is_github_link p\<close> show ?thesis by (simp add: classify_link_def Inr)
    next
      case True
      with b have "is_git_link p = Inr True" by simp
      from is_git_link_TrueD[OF this] obtain u r
        where kr: "map_of known_repositories (netloc p) = Some (u, r)"
        by blast
      show ?thesis
      proof (cases "map_of (parse_qs (query p)) ''h''")
        case None
        with kr b True \<open>\<not> is_github_link p\<close> show ?thesis
          by (auto simp: classify_link_def Inr convert_git_link_def getitem_def)
      next
        case (Some hs)
        then have "hs \<noteq> []" by (rule parse_qs_values_nonempty)
        then obtain h hs' where "hs = h # hs'" by (cases hs) auto
        with Some kr b True \<open>\<not> is_github_link p\<close> show ?thesis
          by (auto simp: classify_link_def Inr convert_git_link_def getitem_def)
      qed
    qed
  qed
qed

text \<open>The rule for known mirrors, and the part of claim C1 that holds.\<close>

lemma mirror_link_classified:
  assumes "urlparse link = Inr p" and "\<not> is_github_link p"
    and "map_of known_repositories (netloc p) = Some (owner, repo)"
    and "map_of (parse_qs (query p)) ''a'' = Some (a # as)" and "contains a ''commit''"
    and "map_of (parse_qs (query p)) ''h'' = Some (h # hs)"
  shows "classify_link url_for cve_id link =
           Inr (Git_link (link, url_for ''main.info_page''
                  [(''cve_id'', cve_id), (''repo_user'', owner), (''repo_name'', repo),
                   (''commit'', h)]))"
  using assms
  by (simp add: classify_link_def is_git_link_def convert_git_link_def getitem_def)

lemma mirror_link_without_a_is_normal:
  assumes "urlparse link = Inr p" and "\<not> is_github_link p"
    and "map_of (parse_qs (query p)) ''a'' = None"
  shows "classify_link url_for cve_id link = Inr (Normal_link link)"
  using assms by (simp add: classify_link_def is_git_link_def)

lemma mirror_link_without_h_raises:
  assumes "urlparse link = Inr p" and "\<not> is_github_link p"
    and "map_of known_repositories (netloc p) = Some (owner, repo)"
    and "map_of (parse_qs (query p)) ''a'' = Some (a # as)" and "contains a ''commit''"
    and "map_of (parse_qs (query p)) ''h'' = None"
  shows "classify_link url_for cve_id link = Inl KeyError"
  using assms
  by (simp add: classify_link_def is_git_link_def convert_git_link_def getitem_def)

text \<open>
  Claim C1 (the code departs from it). Classification never raises; in particular a
  link to a host of the known-mirror table whose query lacks the key \<open>a\<close> or lacks the
  key \<open>h\<close> becomes an opaque link. The link below is to a host of the table, its query
  has \<open>a=commit\<close> and no \<open>h\<close>: \<open>is_git_link\<close> accepts it, since it looks for \<open>a\<close> only, and
  the subscript \<open>query["h"]\<close> of \<open>convert_git_link\<close> raises \<open>KeyError\<close>.
\<close>

theorem classify_missing_h_raises:
  "map_of known_repositories ''git.kernel.org'' = Some (''torvalds'', ''linux'') \<and>
   map_of (parse_qs ''a=commit'') ''h'' = None \<and>
   classify_link url_for cve_id ''https://git.kernel.org/?a=commit'' = Inl KeyError"
  by code_simp

text \<open>
  The same link with its two fields separated by \<open>&\<close>: it is no GitHub link, it is a
  link to a known mirror, and it is classified as a commit link whose converted form is
  built from the owner \<open>torvalds\<close>, the repository \<open>linux\<close> and the commit \<open>deadbeef\<close>.
\<close>

lemma classify_kernel_mirror_ampersand:
  "(case urlparse ''https://git.kernel.org/?a=commit&h=deadbeef'' of
      Inl e \<Rightarrow> False
    | Inr p \<Rightarrow> \<not> is_github_link p \<and> is_git_link p = Inr True) \<and>
   classify_link url_for cve_id ''https://git.kernel.org/?a=commit&h=deadbeef'' =
     Inr (Git_link (''https://git.kernel.org/?a=commit&h=deadbeef'',
            url_for ''main.info_page''
              [(''cve_id'', cve_id), (''repo_user'', ''torvalds''), (''repo_name'', ''linux''),
               (''commit'', ''deadbeef'')]))"
  by code_simp

text \<open>
  Claim C2 (the code departs from it). For the link
  \<open>https://git.kernel.org/?a=commit;h=deadbeef\<close> classification produces a commit link
  with owner \<open>torvalds\<close>, repository \<open>linux\<close> and commit \<open>deadbeef\<close>. The query of the
  link is \<open>a=commit;h=deadbeef\<close>, and \<open>parse_qs\<close> reads it as the single field \<open>a\<close>
  with the value \<open>commit;h=deadbeef\<close>. The host is a known mirror and that value
  contains \<open>commit\<close>, so \<open>is_git_link\<close> accepts the link; there is no key \<open>h\<close>, and
  the subscript \<open>query["h"]\<close> of \<open>convert_git_link\<close> raises \<open>KeyError\<close>: no commit link
  is produced.
\<close>

theorem classify_kernel_mirror_example_raises:
  "(case urlparse ''https://git.kernel.org/?a=commit;h=deadbeef'' of
      Inl e \<Rightarrow> False
    | Inr p \<Rightarrow> netloc p = ''git.kernel.org'' \<and> query p = ''a=commit;h=deadbeef'' \<and>
               \<not> is_github_link p \<and> is_git_link p = Inr True) \<and>
   parse_qs ''a=commit;h=deadbeef'' = [(''a'', [''commit;h=deadbeef''])] \<and>
   classify_link url_for cve_id ''https://git.kernel.org/?a=commit;h=deadbeef'' = Inl KeyError"
  by code_simp

text \<open>
  Claim C3 (the code departs from it). Every link whose host is \<open>github.com\<close> or
  \<open>www.github.com\<close> and whose path is \<open>/owner/repo/commit/hash\<close>, the hash 5 to 40
  lowercase hexadecimal digits, is classified as a commit link with that owner,
  repository and hash. In the link below the host is \<open>github.com\<close> and the path is
  \<open>/foo/bar.js/commit/abcdef1\<close>, with a hash of seven lowercase hexadecimal digits: a
  link to a commit of the repository \<open>bar.js\<close>. The classes of \<open>github_pattern\<close> have
  no dot, so the pattern does not match and the link is classified as a normal link.
\<close>

theorem github_dotted_repo_is_normal_link:
  "urlparse ''https://github.com/foo/bar.js/commit/abcdef1'' =
     Inr \<lparr>scheme = ''https'', netloc = ''github.com'', path = ''/foo/bar.js/commit/abcdef1'',
          params = [], query = [], fragment = []\<rparr> \<and>
   classify_link info_page_url ''CVE-2021-12345'' ''https://github.com/foo/bar.js/commit/abcdef1'' =
     Inr (Normal_link ''https://github.com/foo/bar.js/commit/abcdef1'')"
  by code_simp

text \<open>
  \<open>is_github_link\<close> compares the whole network location, not the host in it: with a
  port, with user information, or with a capital letter in the name, a link to a commit
  on \<open>github.com\<close> is classified as a normal link as well.
\<close>

lemma github_netloc_forms_are_normal_links:
  "classify_link info_page_url ''CVE-2021-12345'' ''https://github.com:443/foo/bar/commit/abcdef1'' =
     Inr (Normal_link ''https://github.com:443/foo/bar/commit/abcdef1'') \<and>
   classify_link info_page_url ''CVE-2021-12345'' ''https://user@github.com/foo/bar/commit/abcdef1'' =
     Inr (Normal_link ''https://user@github.com/foo/bar/commit/abcdef1'') \<and>
   classify_link info_page_url ''CVE-2021-12345'' ''https://GitHub.com/foo/bar/commit/abcdef1'' =
     Inr (Normal_link ''https://GitHub.com/foo/bar/commit/abcdef1'')"
  by code_simp

text \<open>
  Where the GitHub rule does apply: the network location is \<open>github.com\<close> or
  \<open>www.github.com\<close> as it stands, the path is \<open>/owner/repo/commit/hash\<close>, with an
  optional trailing slash, owner and repo are non-empty and made of ASCII letters, digits
  and hyphens, and the hash is 5 to 40 lowercase hexadecimal digits. Then the link is
  classified as a commit link with that owner, repository and hash.
\<close>

lemma github_commit_link_classified:
  assumes "urlparse link = Inr p"
    and "netloc p = ''github.com'' \<or> netloc p = ''www.github.com''"
    and "path p = ''/'' @ owner @ ''/'' @ repo @ ''/commit/'' @ h @ t"
    and "t = [] \<or> t = ''/''"
    and "owner \<noteq> []" and "list_all name_char owner"
    and "repo \<noteq> []" and "list_all name_char repo"
    and "list_all hash_char h" and "5 \<le> length h" and "length h \<le> 40"
  shows "is_github_link p \<and>
         classify_link url_for cve_id link =
           Inr (Git_link (link, url_for ''main.info_page''
                  [(''cve_id'', cve_id), (''repo_user'', owner), (''repo_name'', repo),
                   (''commit'', h)]))"
proof -
  have m: "re_match github_pattern (path p) = Some [owner, repo, h]"
    unfolding assms(3)
    by (rule github_pattern_match[OF assms(5) assms(6) assms(7) assms(8) assms(9) assms(10)
          assms(11) assms(4)])
  then have g: "is_github_link p" using assms(2) by (simp add: is_github_link_def)
  have "convert_github_link url_for cve_id p =
          Inr (url_for ''main.info_page''
                 [(''cve_id'', cve_id), (''repo_user'', owner), (''repo_name'', repo), (''commit'', h)])"
    by (simp add: convert_github_link_def m)
  with g show ?thesis by (simp add: classify_link_def assms(1))
qed

lemma parse_foo_bar:
  "urlparse ''https://github.com/foo/bar/commit/abcdef1'' =
     Inr \<lparr>scheme = ''https'', netloc = ''github.com'', path = ''/foo/bar/commit/abcdef1'',
          params = [], query = [], fragment = []\<rparr>"
  by code_simp

text \<open>
  The link \<open>https://github.com/foo/bar/commit/abcdef1\<close> yields owner \<open>foo\<close>,
  repository \<open>bar\<close> and hash \<open>abcdef1\<close>.
\<close>

lemma classify_foo_bar_example:
  "classify_link info_page_url ''CVE-2021-12345'' ''https://github.com/foo/bar/commit/abcdef1'' =
     Inr (Git_link (''https://github.com/foo/bar/commit/abcdef1'',
                    ''/cve/CVE-2021-12345/info/foo/bar/abcdef1''))"
proof -
  have cls: "list_all name_char ''foo''" "list_all name_char ''bar''" "list_all hash_char ''abcdef1''"
    by code_simp+
  show ?thesis
    using github_commit_link_classified[OF parse_foo_bar, of "''foo''" "''bar''" "''abcdef1''" "[]"
            info_page_url "''CVE-2021-12345''"] cls
    by (simp add: info_page_url_def kwarg_def)
qed

text \<open>
  Claim C10. The GitHub rule recognizes only owner and repository segments made of ASCII
  letters, digits and hyphens: a link to \<open>github.com\<close> or \<open>www.github.com\<close> with the
  path \<open>/owner/repo/commit/...\<close> in which the owner or the repository segment has any
  other character is not matched by the rule and is classified as a normal link.
\<close>

theorem github_rule_rejects_other_characters:
  assumes "urlparse link = Inr p"
    and "netloc p = ''github.com'' \<or> netloc p = ''www.github.com''"
    and "path p = ''/'' @ owner @ ''/'' @ repo @ ''/commit/'' @ h @ t"
    and "CHR ''/'' \<notin> set owner" and "CHR ''/'' \<notin> set repo"
    and "\<not> (list_all name_char owner \<and> list_all name_char repo)"
  shows "\<not> is_github_link p \<and> classify_link url_for cve_id link = Inr (Normal_link link)"
proof -
  have "re_match github_pattern (path p) = None"
    unfolding assms(3) by (rule github_pattern_no_match[OF assms(4) assms(5) assms(6)])
  then have g: "\<not> is_github_link p" by (simp add: is_github_link_def)
  with github_host_not_mirror[OF assms(2)] show ?thesis
    by (simp add: classify_link_def assms(1))
qed

lemma parse_my_org:
  "urlparse ''https://www.github.com/my_org/tool/commit/abcdef1/'' =
     Inr \<lparr>scheme = ''https'', netloc = ''www.github.com'', path = ''/my_org/tool/commit/abcdef1/'',
          params = [], query = [], fragment = []\<rparr>"
  by code_simp

theorem github_rule_rejects_other_characters_witness:
  "classify_link info_page_url ''CVE-2021-12345'' ''https://www.github.com/my_org/tool/commit/abcdef1/'' =
     Inr (Normal_link ''https://www.github.com/my_org/tool/commit/abcdef1/'')"
proof -
  have bad: "\<not> (list_all name_char ''my_org'' \<and> list_all name_char ''tool'')"
    by code_simp
  show ?thesis
    using github_rule_rejects_other_characters[OF parse_my_org, of "''my_org''" "''tool''"
            "''abcdef1''" "''/''" info_page_url "''CVE-2021-12345''"] bad
    by simp
qed

section \<open>\<open>process_cve\<close>\<close>

lemma classify_link_keeps_link:
  "classify_link url_for cve_id link = Inr (Git_link g) \<Longrightarrow> fst g = link"
  "classify_link url_for cve_id link = Inr (Normal_link n) \<Longrightarrow> n = link"
  by (auto simp: classify_link_def split: sum.splits if_splits bool.splits)

text \<open>
  The loop appends to both lists: what was in them stays, and what is added are the
  commit links and the other links of the input, each in the order of the input.
\<close>

lemma process_links_partition:
  "process_links url_for cve_id ls gs ns = Inr (gs', ns') \<Longrightarrow>
     (\<exists>gs2. gs' = gs @ gs2 \<and> map fst gs2 = filter (commit_link url_for cve_id) ls
            \<and> (\<forall>g \<in> set gs2. classify_link url_for cve_id (fst g) = Inr (Git_link g)))
     \<and> ns' = ns @ filter (\<lambda>l. \<not> commit_link url_for cve_id l) ls"
proof (induction ls arbitrary: gs ns)
  case Nil
  then show ?case by simp
next
  case (Cons l ls)
  show ?case
  proof (cases "classify_link url_for cve_id l")
    case (Inl e)
    with Cons.prems show ?thesis by simp
  next
    case (Inr c)
    show ?thesis
    proof (cases c)
      case (Git_link g)
      with Inr Cons.prems have "process_links url_for cve_id ls (gs @ [g]) ns = Inr (gs', ns')"
        by simp
      from Cons.IH[OF this] obtain gs2 where
        a: "gs' = (gs @ [g]) @ gs2" "map fst gs2 = filter (commit_link url_for cve_id) ls"
           "\<forall>g \<in> set gs2. classify_link url_for cve_id (fst g) = Inr (Git_link g)"
        and b: "ns' = ns @ filter (\<lambda>l. \<not> commit_link url_for cve_id l) ls"
        by blast
      have f: "fst g = l" using Inr Git_link by (simp add: classify_link_keeps_link)
      have cl: "commit_link url_for cve_id l" using Inr Git_link by (simp add: commit_link_def)
      have "gs' = gs @ (g # gs2)" using a(1) by simp
      moreover have "map fst (g # gs2) = filter (commit_link url_for cve_id) (l # ls)"
        using a(2) f cl by simp
      moreover have "\<forall>x \<in> set (g # gs2). classify_link url_for cve_id (fst x) = Inr (Git_link x)"
        using a(3) f Inr Git_link by simp
      moreover have "ns' = ns @ filter (\<lambda>l. \<not> commit_link url_for cve_id l) (l # ls)"
        using b cl by simp
      ultimately show ?thesis by blast
    next
      case (Normal_link n)
      with Inr Cons.prems have "process_links url_for cve_id ls gs (ns @ [n]) = Inr (gs', ns')"
        by simp
      from Cons.IH[OF this] obtain gs2 where
        a: "gs' = gs @ gs2" "map fst gs2 = filter (commit_link url_for cve_id) ls"
           "\<forall>g \<in> set gs2. classify_link url_for cve_id (fst g) = Inr (Git_link g)"
        and b: "ns' = (ns @ [n]) @ filter (\<lambda>l. \<not> commit_link url_for cve_id l) ls"
        by blast
      have f: "n = l" using Inr Normal_link by (simp add: classify_link_keeps_link)
      have cl: "\<not> commit_link url_for cve_id l" using Inr Normal_link by (simp add: commit_link_def)
      show ?thesis using a b f cl by auto
    qed
  qed
qed

text \<open>\<open>process_cve\<close> returns a record when no link raises.\<close>

lemma process_cve_returns:
  assumes "\<forall>l \<in> set (raw_links entry). \<exists>c. classify_link url_for (raw_id entry) l = Inr c"
  shows "\<exists>out. process_cve url_for entry = Inr out"
proof -
  have "\<exists>r. process_links url_for cve_id ls gs ns = Inr r"
    if "\<forall>l \<in> set ls. \<exists>c. classify_link url_for cve_id l = Inr c" for cve_id ls gs ns
    using that
  proof (induction ls arbitrary: gs ns)
    case Nil
    then show ?case by simp
  next
    case (Cons l ls)
    then obtain c where "classify_link url_for cve_id l = Inr c" by auto
    with Cons show ?case by (cases c) auto
  qed
  from this[OF assms, of "[]" "[]"] show ?thesis
    by (auto simp: process_cve_def)
qed

text \<open>
  Claim C4. The record that \<open>process_cve\<close> builds partitions the links: the originals
  of \<open>git_links\<close> are the commit links of the input and \<open>normal_links\<close> are its other
  links, each in the order of the input; every pair of \<open>git_links\<close> is a link with its
  own converted form; and the two lists together hold every link of the input as often as
  the input does, so nothing is dropped, merged or sorted.
\<close>

theorem process_cve_partition:
  assumes "process_cve url_for entry = Inr out"
  shows "map fst (git_links out) = filter (commit_link url_for (raw_id entry)) (raw_links entry)
       \<and> normal_links out = filter (\<lambda>l. \<not> commit_link url_for (raw_id entry) l) (raw_links entry)
       \<and> (\<forall>g \<in> set (git_links out). classify_link url_for (raw_id entry) (fst g) = Inr (Git_link g))
       \<and> mset (map fst (git_links out)) + mset (normal_links out) = mset (raw_links entry)
       \<and> entry_id out = raw_id entry \<and> entry_desc out = raw_desc entry"
proof -
  from assms obtain gs ns where
    p: "process_links url_for (raw_id entry) (raw_links entry) [] [] = Inr (gs, ns)"
    and out: "out = \<lparr>entry_id = raw_id entry, entry_desc = raw_desc entry,
                      git_links = gs, normal_links = ns\<rparr>"
    by (auto simp: process_cve_def split: sum.splits)
  from process_links_partition[OF p] have
    g: "map fst gs = filter (commit_link url_for (raw_id entry)) (raw_links entry)"
    and c: "\<forall>g \<in> set gs. classify_link url_for (raw_id entry) (fst g) = Inr (Git_link g)"
    and n: "ns = filter (\<lambda>l. \<not> commit_link url_for (raw_id entry) l) (raw_links entry)"
    by auto
  have "mset (map fst gs) + mset ns = mset (raw_links entry)"
    unfolding g n by (simp only: mset_filter multiset_partition[symmetric])
  with g c n show ?thesis by (simp add: out)
qed

lemma process_example_entry: "process_cve info_page_url example_entry = Inr example_record"
  by code_simp

text \<open>
  On the example the link that occurs twice is kept twice, and the two links to the same
  commit are both kept, each with its own original.
\<close>

theorem process_cve_partition_witness:
  "process_cve info_page_url example_entry = Inr example_record \<and>
   map fst (git_links example_record) =
     [''https://github.com/foo/bar/commit/abcdef1'',
      ''https://www.github.com/foo/bar/commit/abcdef1/'',
      ''https://git.kernel.org/?a=commit&h=deadbeef''] \<and>
   map fst (git_links example_record) =
     filter (commit_link info_page_url (raw_id example_entry)) (raw_links example_entry) \<and>
   normal_links example_record =
     filter (\<lambda>l. \<not> commit_link info_page_url (raw_id example_entry) l) (raw_links example_entry) \<and>
   normal_links example_record =
     [''https://example.com/patch.diff'', ''https://example.com/patch.diff''] \<and>
   mset (map fst (git_links example_record)) + mset (normal_links example_record) =
     mset (raw_links example_entry)"
  using process_cve_partition[OF process_example_entry] process_example_entry
  by (simp add: example_record_def)

section \<open>\<open>get_cve\<close>\<close>

text \<open>
  An identifier that \<open>is_valid_cve_id\<close> rejects after \<open>upper\<close> is answered with
  \<open>None\<close>, and the network is left as it was: nothing is requested.
\<close>

lemma get_cve_invalid_no_fetch:
  "\<not> is_valid_cve_id (upper cve_id) \<Longrightarrow> get_cve url_for w cve_id = (Inr None, w)"
  by (simp add: get_cve_def)

text \<open>
  With \<open>is_valid_cve_id_iff\<close>: an identifier that does not have the format after
  \<open>upper\<close>, and is not an identifier of the format followed by a line feed either, is
  rejected before any request.
\<close>

lemma get_cve_bad_format_no_fetch:
  assumes "\<not> cve_format (upper cve_id)"
    and "\<not> (\<exists>s'. upper cve_id = s' @ [CHR 0x0A] \<and> cve_format s')"
  shows "get_cve url_for w cve_id = (Inr None, w)"
  using assms by (simp add: get_cve_invalid_no_fetch is_valid_cve_id_iff)

lemma upper_newline_id: "upper ''CVE-2021-12345\<newline>'' = ''CVE-2021-12345\<newline>''"
  by code_simp

lemma valid_newline_id: "is_valid_cve_id ''CVE-2021-12345\<newline>''"
  by code_simp

text \<open>
  Claim C5 (the code departs from it). An identifier that does not have the format
  \<open>CVE-\d{4}-\d{4,7}\<close> after \<open>upper\<close> is rejected before any request. The identifier
  below is \<open>CVE-2021-12345\<close> followed by a line feed: it does not have the format, but
  the \<open>$\<close> of \<open>cve_pattern\<close> matches before a final line feed, so \<open>is_valid_cve_id\<close>
  accepts it and \<open>scrape_cve\<close> requests the URL that ends in the line feed.
\<close>

theorem get_cve_trailing_newline_fetches:
  "\<not> cve_format (upper ''CVE-2021-12345\<newline>'') \<and>
   is_valid_cve_id (upper ''CVE-2021-12345\<newline>'') \<and>
   requested (snd (get_cve url_for w ''CVE-2021-12345\<newline>'')) =
     requested w @ [''https://services.nvd.nist.gov/rest/json/cve/1.0/CVE-2021-12345\<newline>'']"
proof -
  have "\<not> cve_format ''CVE-2021-12345\<newline>''" by code_simp
  then show ?thesis
    by (simp add: upper_newline_id valid_newline_id get_cve_def scrape_cve_def requests_get_def
          Let_def split: sum.splits option.splits prod.splits)
qed

text \<open>
  Claim C6, as the specification states it, fails: an identifier of the wrong format
  and a valid identifier for which the service has no data give the same result,
  \<open>None\<close>.
\<close>

theorem get_cve_failures_look_alike:
  "\<not> is_valid_cve_id (upper ''CVE-21-12345'') \<and> is_valid_cve_id (upper ''CVE-2021-12345'') \<and>
   fst (get_cve info_page_url nvd_down ''CVE-21-12345'') = Inr None \<and>
   fst (get_cve info_page_url nvd_down ''CVE-2021-12345'') = Inr None"
  by code_simp

text \<open>
  Claim C6, amended. \<open>get_cve\<close> reports a failure to its caller by returning \<open>None\<close>,
  and it does so in exactly two cases, which the result does not tell apart: the
  identifier is rejected by \<open>is_valid_cve_id\<close> after \<open>upper\<close>, or the response of the
  service to the request for the identifier is not ok.
\<close>

theorem get_cve_none_iff:
  "fst (get_cve url_for w cve_id) = Inr None \<longleftrightarrow>
     (\<not> is_valid_cve_id (upper cve_id) \<or>
      (\<exists>r. reply w (''https://services.nvd.nist.gov/rest/json/cve/1.0/'' @ upper cve_id) = Inr r
           \<and> \<not> ok r))"
  by (auto simp: get_cve_def scrape_cve_def requests_get_def Let_def
        split: sum.splits option.splits prod.splits)

theorem get_cve_none_iff_witness:
  "is_valid_cve_id (upper ''cve-2014-0160'') \<and>
   fst (get_cve info_page_url nvd_down ''cve-2014-0160'') = Inr None"
proof -
  have v: "is_valid_cve_id (upper ''cve-2014-0160'')" by code_simp
  have "\<exists>r. reply nvd_down (''https://services.nvd.nist.gov/rest/json/cve/1.0/''
               @ upper ''cve-2014-0160'') = Inr r \<and> \<not> ok r"
    by (simp add: nvd_down_def)
  then show ?thesis
    using get_cve_none_iff[of info_page_url nvd_down "''cve-2014-0160''"] v by blast
qed

text \<open>
  Claim C7. \<open>CVE-2021-12345\<close> is valid and \<open>CVE-21-12345\<close> is not; \<open>get_cve\<close> puts the
  identifier in upper case before it validates it, so \<open>cve-2021-12345\<close>, which the
  pattern does not accept as written, becomes \<open>CVE-2021-12345\<close> and is accepted: in
  every state of the network \<open>get_cve\<close> requests the entry of \<open>CVE-2021-12345\<close> for it,
  and nothing else, and does all that it does for \<open>CVE-2021-12345\<close>; from a service that
  has the entry it returns the record of \<open>CVE-2021-12345\<close>.
\<close>

theorem cve_id_validation_examples:
  "is_valid_cve_id ''CVE-2021-12345'' \<and> \<not> is_valid_cve_id ''CVE-21-12345'' \<and>
   upper ''cve-2021-12345'' = ''CVE-2021-12345'' \<and>
   is_valid_cve_id (upper ''cve-2021-12345'') \<and>
   get_cve url_for w ''cve-2021-12345'' = get_cve url_for w ''CVE-2021-12345'' \<and>
   \<not> is_valid_cve_id ''cve-2021-12345'' \<and>
   requested (snd (get_cve url_for w ''cve-2021-12345'')) =
     requested w @ [''https://services.nvd.nist.gov/rest/json/cve/1.0/CVE-2021-12345''] \<and>
   fst (get_cve info_page_url nvd_has_example ''cve-2021-12345'') = Inr (Some example_record)"
proof -
  have a: "is_valid_cve_id ''CVE-2021-12345''" "\<not> is_valid_cve_id ''CVE-21-12345''"
    "\<not> is_valid_cve_id ''cve-2021-12345''"
    by code_simp+
  have u: "upper ''cve-2021-12345'' = ''CVE-2021-12345''" "upper ''CVE-2021-12345'' = ''CVE-2021-12345''"
    by code_simp+
  have r: "requested (snd (get_cve url_for w ''cve-2021-12345'')) =
             requested w @ [''https://services.nvd.nist.gov/rest/json/cve/1.0/CVE-2021-12345'']"
    by (simp add: a u get_cve_def scrape_cve_def requests_get_def Let_def
          split: sum.splits option.splits prod.splits)
  have e: "fst (get_cve info_page_url nvd_has_example ''cve-2021-12345'') = Inr (Some example_record)"
    by code_simp
  show ?thesis using a u r e by (simp add: get_cve_def)
qed

end
